theory Spec2Isabelle
  imports Main "HOL-Library.Char_ord" "HOL-Library.List_Lexorder"
    "HOL-Library.Product_Lexorder" "HOL-Library.Log_Nat" "HOL-Library.Multiset"
begin

section \<open>Python strings\<close>

text \<open>
  A Python \<open>str\<close> is modelled as a \<open>string\<close> (a list of 8-bit characters), so the
  model covers the code points below 256. The order on characters is the order of their
  codes and the order on strings is the lexicographic one, as Python compares \<open>str\<close>.
\<close>

definition is_space :: "char \<Rightarrow> bool" where
  \<comment> \<open>The characters \<open>str.strip()\<close> removes: tab, LF, VT, FF, CR, FS, GS, RS, US, space,
      NEL and the no-break space.\<close>
  "is_space c = ((of_char c :: nat) \<in> {9, 10, 11, 12, 13, 28, 29, 30, 31, 32, 133, 160})"

definition strip :: "string \<Rightarrow> string" where
  "strip s = rev (dropWhile is_space (rev (dropWhile is_space s)))"

fun split_on :: "char \<Rightarrow> string \<Rightarrow> string list" where
  \<comment> \<open>\<open>s.split(sep)\<close> for a separator of one character: \<open>n\<close> separators give \<open>n + 1\<close> parts.\<close>
  "split_on sep [] = [[]]"
| "split_on sep (c # cs) =
     (if c = sep then [] # split_on sep cs
      else (case split_on sep cs of
              [] \<Rightarrow> [[c]]
            | part # parts \<Rightarrow> (c # part) # parts))"

fun join :: "string \<Rightarrow> string list \<Rightarrow> string" where
  \<comment> \<open>\<open>sep.join(parts)\<close>\<close>
  "join sep [] = []"
| "join sep [x] = x"
| "join sep (x # y # ys) = x @ sep @ join sep (y # ys)"

fun digit_char :: "nat \<Rightarrow> char" where
  "digit_char n = char_of (48 + n mod 10)"

fun str_nat :: "nat \<Rightarrow> string" where
  "str_nat n = (if n < 10 then [digit_char n] else str_nat (n div 10) @ [digit_char n])"

declare str_nat.simps [simp del]

definition str_int :: "int \<Rightarrow> string" where
  \<comment> \<open>\<open>str(n)\<close> of a Python integer, as the f-string \<open>f"{num}"\<close> formats it.\<close>
  "str_int i = (if i < 0 then CHR ''-'' # str_nat (nat (- i)) else str_nat (nat i))"

section \<open>The teeth selector\<close>

datatype error = ValueError string | KeyError string | IntegrityError string

datatype relief = Raised | Sunken

record selector =
  selected_teeth :: "string set"
  buttons :: "string \<rightharpoonup> relief"

definition parse_selection :: "string \<Rightarrow> string set" where
  \<comment> \<open>The initialisation of \<open>selected_teeth\<close> in \<open>open_teeth_selector\<close>: the loop over
      \<open>initial_selection.split(",")\<close> is a fold over the parts.\<close>
  "parse_selection initial_selection =
     (if initial_selection \<noteq> [] then
        fold (\<lambda>tooth sel. let tooth = strip tooth in
                            if tooth \<noteq> [] then insert tooth sel else sel)
             (split_on CHR '','' initial_selection) {}
      else {})"

definition quadrant_info :: "(string \<times> string) list" where
  "quadrant_info =
     [(''Upper Left'', ''UL''), (''Upper Right'', ''UR''),
      (''Lower Left'', ''LL''), (''Lower Right'', ''LR'')]"

definition contains_str :: "string \<Rightarrow> string \<Rightarrow> bool" where
  \<comment> \<open>Python's \<open>sub in s\<close> on strings.\<close>
  "contains_str sub s = (\<exists>k \<in> set [0 ..< Suc (length s)]. take (length sub) (drop k s) = sub)"

definition numbers_of :: "string \<Rightarrow> int list" where
  "numbers_of qname =
     (if contains_str ''Left'' qname then rev (map int [1 ..< 9]) else map int [1 ..< 9])"

definition quadrant_buttons ::
  "string set \<Rightarrow> string \<Rightarrow> int list \<Rightarrow> (string \<rightharpoonup> relief) \<Rightarrow> (string \<rightharpoonup> relief)" where
  \<comment> \<open>The inner loop: one button for each number of a quadrant, sunken when the tooth is
      selected already.\<close>
  "quadrant_buttons sel qabbr numbers bs =
     fold (\<lambda>i bs. let tooth_id = qabbr @ str_int i in
                   bs(tooth_id \<mapsto> (if tooth_id \<in> sel then Sunken else Raised)))
          numbers bs"

definition make_buttons :: "string set \<Rightarrow> (string \<rightharpoonup> relief)" where
  \<comment> \<open>The loop over \<open>quadrant_info.items()\<close> that fills \<open>buttons\<close>.\<close>
  "make_buttons sel =
     fold (\<lambda>(qname, qabbr) bs. quadrant_buttons sel qabbr (numbers_of qname) bs)
          quadrant_info Map.empty"

definition open_teeth_selector :: "string \<Rightarrow> selector" where
  "open_teeth_selector initial_selection =
     (let sel = parse_selection initial_selection
      in \<lparr>selected_teeth = sel, buttons = make_buttons sel\<rparr>)"

definition toggle_tooth :: "selector \<Rightarrow> string \<Rightarrow> int \<Rightarrow> error + selector" where
  \<comment> \<open>\<open>buttons[tooth_id]\<close> raises KeyError for an identifier that has no button.\<close>
  "toggle_tooth st qabbr num =
     (let tooth_id = qabbr @ str_int num in
      case buttons st tooth_id of
        None \<Rightarrow> Inl (KeyError tooth_id)
      | Some btn \<Rightarrow>
          if tooth_id \<in> selected_teeth st then
            Inr (st\<lparr>selected_teeth := selected_teeth st - {tooth_id},
                    buttons := (buttons st)(tooth_id \<mapsto> Raised)\<rparr>)
          else
            Inr (st\<lparr>selected_teeth := insert tooth_id (selected_teeth st),
                    buttons := (buttons st)(tooth_id \<mapsto> Sunken)\<rparr>))"

definition serialize :: "string set \<Rightarrow> string" where
  \<comment> \<open>\<open>", ".join(sorted(selected_teeth))\<close>\<close>
  "serialize sel = join '', '' (sorted_list_of_set sel)"

definition on_ok :: "selector \<Rightarrow> string" where
  \<comment> \<open>The selection handed to the callback.\<close>
  "on_ok st = serialize (selected_teeth st)"

text \<open>The words of the specification, to compare the code with.\<close>

definition toggle_spec :: "string set \<Rightarrow> string \<Rightarrow> string set" where
  "toggle_spec S t = (if t \<in> S then S - {t} else insert t S)"

fun lex_le :: "string \<Rightarrow> string \<Rightarrow> bool" where
  \<comment> \<open>Lexicographic comparison by character code, written out.\<close>
  "lex_le [] ys = True"
| "lex_le (x # xs) [] = False"
| "lex_le (x # xs) (y # ys) =
     ((of_char x :: nat) < of_char y \<or> (x = y \<and> lex_le xs ys))"

section \<open>Validation\<close>

definition is_digit :: "char \<Rightarrow> bool" where
  \<comment> \<open>\<open>\d\<close> on the code points below 256: the ASCII digits.\<close>
  "is_digit c = (48 \<le> (of_char c :: nat) \<and> (of_char c :: nat) \<le> 57)"

definition validate_phone :: "string \<Rightarrow> string option" where
  \<comment> \<open>\<open>re.match(r'^\+?\d{8,15}$', phone)\<close>: an optional plus sign, 8 to 15 digits, and the
      end of the string, which \<open>$\<close> also finds before one final newline.\<close>
  "validate_phone phone =
     (let body = (case phone of [] \<Rightarrow> [] | c # cs \<Rightarrow> if c = CHR ''+'' then cs else phone);
          digits = (if body \<noteq> [] \<and> last body = CHR 0x0A then butlast body else body)
      in if list_all is_digit digits \<and> 8 \<le> length digits \<and> length digits \<le> 15
         then Some phone else None)"

subsection \<open>Floating-point numbers\<close>

text \<open>
  A Python \<open>float\<close> is an IEEE 754 binary64 value: a finite value is the rational number
  it denotes (\<open>Fin 0\<close> is the positive zero), and the negative zero, the infinities and
  the NaN are values of their own.
\<close>

datatype pyfloat = Fin rat | NegZero | PosInf | NegInf | NaN

fun float_ge0 :: "pyfloat \<Rightarrow> bool" where
  \<comment> \<open>\<open>f >= 0\<close>\<close>
  "float_ge0 (Fin x) = (0 \<le> x)"
| "float_ge0 NegZero = True"
| "float_ge0 PosInf = True"
| "float_ge0 NegInf = False"
| "float_ge0 NaN = False"


definition pow2 :: "int \<Rightarrow> rat" where
  "pow2 e = (if 0 \<le> e then 2 ^ nat e else 1 / 2 ^ nat (- e))"

definition pow10 :: "int \<Rightarrow> rat" where
  "pow10 e = (if 0 \<le> e then 10 ^ nat e else 1 / 10 ^ nat (- e))"

definition ilog2 :: "rat \<Rightarrow> int" where
  \<comment> \<open>For \<open>0 < a\<close>, the exponent \<open>e\<close> with \<open>2 ^ e \<le> a < 2 ^ (e + 1)\<close>, found from the
      bit lengths of the numerator and the denominator.\<close>
  "ilog2 a =
     (let (p, q) = quotient_of a;
          e0 = int (floorlog 2 (nat p)) - int (floorlog 2 (nat q))
      in if pow2 e0 \<le> a then e0 else e0 - 1)"

definition round_half_even :: "rat \<Rightarrow> int" where
  "round_half_even x =
     (let f = \<lfloor>x\<rfloor>; d = x - of_int f
      in if d < 1 / 2 then f
         else if 1 / 2 < d then f + 1
         else if even f then f else f + 1)"

definition round64 :: "bool \<Rightarrow> rat \<Rightarrow> pyfloat" where
  \<comment> \<open>The binary64 value nearest to a magnitude \<open>a \<ge> 0\<close> with the given sign (True is
      negative), ties to even: 53 bits of precision, the least exponent -1022 (subnormals
      below), overflow to the infinity from \<open>2 ^ 1024\<close> on.\<close>
  "round64 neg a =
     (if a = 0 then (if neg then NegZero else Fin 0)
      else
        let e = max (ilog2 a) (- 1022);
            q = pow2 (e - 52);
            n = round_half_even (a / q)
        in if 1023 < e \<or> (e = 1023 \<and> n = 2 ^ 53) then (if neg then NegInf else PosInf)
           else if n = 0 then (if neg then NegZero else Fin 0)
           else Fin ((if neg then - 1 else 1) * of_int n * q))"

definition ascii_lower :: "char \<Rightarrow> char" where
  "ascii_lower c =
     (if 65 \<le> (of_char c :: nat) \<and> (of_char c :: nat) \<le> 90
      then char_of ((of_char c :: nat) + 32) else c)"

definition digitpart :: "string \<Rightarrow> bool" where
  \<comment> \<open>One or more digits, with single underscores allowed between digits.\<close>
  "digitpart s =
     (s \<noteq> [] \<and> list_all (\<lambda>c. is_digit c \<or> c = CHR ''_'') s
      \<and> is_digit (hd s) \<and> is_digit (last s)
      \<and> list_all (\<lambda>(c, d). \<not> (c = CHR ''_'' \<and> d = CHR ''_'')) (zip s (tl s)))"

definition digits_value :: "string \<Rightarrow> nat" where
  "digits_value s =
     foldl (\<lambda>acc c. 10 * acc + ((of_char c :: nat) - 48)) 0 (filter is_digit s)"

definition split_sign :: "string \<Rightarrow> bool \<times> string" where
  "split_sign s =
     (case s of
        [] \<Rightarrow> (False, [])
      | c # cs \<Rightarrow> if c = CHR ''-'' then (True, cs)
                  else if c = CHR ''+'' then (False, cs) else (False, s))"

definition py_float :: "string \<Rightarrow> pyfloat option" where
  \<comment> \<open>\<open>float(s)\<close> of a string, None for the ValueError it raises. The grammar is
      \<open>[sign] (floatnumber | "inf" | "infinity" | "nan")\<close> between optional whitespace, the
      words in any case; a floatnumber is \<open>digitpart ["."]\<close> or \<open>[digitpart] "." digitpart\<close>
      with an optional exponent \<open>("e" | "E") [sign] digitpart\<close>. The decimal value is
      rounded to the nearest binary64 value.\<close>
  "py_float s =
     (let (neg, body) = split_sign (strip s);
          word = map ascii_lower body
      in if word = ''inf'' \<or> word = ''infinity'' then Some (if neg then NegInf else PosInf)
         else if word = ''nan'' then Some NaN
         else
           let mant = takeWhile (\<lambda>c. c \<noteq> CHR ''e'') word;
               expo = dropWhile (\<lambda>c. c \<noteq> CHR ''e'') word;
               ip = takeWhile (\<lambda>c. c \<noteq> CHR ''.'') mant;
               fp = dropWhile (\<lambda>c. c \<noteq> CHR ''.'') mant;
               (eneg, edigits) = split_sign (tl expo);
               mant_ok = (if fp = [] then digitpart ip
                          else (digitpart ip \<and> tl fp = [])
                             \<or> ((ip = [] \<or> digitpart ip) \<and> digitpart (tl fp)));
               expo_ok = (expo = [] \<or> digitpart edigits)
           in if mant_ok \<and> expo_ok then
                let frac = filter is_digit fp;
                    m = digits_value (ip @ frac);
                    e = (if eneg then - int (digits_value edigits) else int (digits_value edigits))
                in Some (round64 neg (of_nat m * pow10 (e - int (length frac))))
              else None)"

definition validate_fee :: "string \<Rightarrow> pyfloat option" where
  \<comment> \<open>The ValueError of \<open>float\<close> is caught; a float that is not \<open>>= 0\<close> falls through to
      the final \<open>return None\<close>.\<close>
  "validate_fee fee =
     (case py_float fee of
        None \<Rightarrow> None
      | Some f \<Rightarrow> if float_ge0 f then Some f else None)"

section \<open>The record store\<close>

text \<open>A \<open>datetime.date\<close> is its year, month and day, and dates compare in this order.\<close>

type_synonym date = "nat \<times> nat \<times> nat"

record patient =
  p_id :: nat
  patient_name :: string
  phone_number :: string
  treatment_type :: "string option"
  teeth_location :: "string option"

record appointment =
  a_id :: nat
  appointment_date :: date
  a_treatment_type :: string
  dentist :: string
  fee :: "pyfloat option"
  app_notes :: "string option"
  patient_id :: "nat option"

record database =
  patients :: "patient list"
  appointments :: "appointment list"

definition next_id :: "nat list \<Rightarrow> nat" where
  \<comment> \<open>The integer primary key the database gives a new row: one more than the largest.\<close>
  "next_id ids = Suc (fold max ids 0)"

definition commit :: "database \<Rightarrow> error + database" where
  \<comment> \<open>\<open>session.commit()\<close> writes the pending rows; the database refuses them when two
      patients have one \<open>phone_number\<close> (\<open>unique=True\<close>).\<close>
  "commit work =
     (if distinct (map phone_number (patients work)) then Inr work
      else Inl (IntegrityError ''UNIQUE constraint failed: patients.phone_number''))"

definition session_scope ::
  "database \<Rightarrow> (database \<Rightarrow> (error + 'a) \<times> database) \<Rightarrow> (error + 'a) \<times> database" where
  \<comment> \<open>The body works on the session's view of the store and returns that view with its
      result, an exception being \<open>Inl\<close>. The store changes at the commit only; an
      exception of the body or of the commit rolls back and is raised again.\<close>
  "session_scope store body =
     (case body store of
        (Inl e, work) \<Rightarrow> (Inl e, store)
      | (Inr r, work) \<Rightarrow>
          (case commit work of
             Inl e \<Rightarrow> (Inl e, store)
           | Inr store' \<Rightarrow> (Inr r, store')))"

definition query_by_phone :: "database \<Rightarrow> string \<Rightarrow> patient option" where
  \<comment> \<open>\<open>session.query(Patient).filter_by(phone_number=phone).first()\<close>\<close>
  "query_by_phone db phone = find (\<lambda>p. phone_number p = phone) (patients db)"

definition appointments_of :: "database \<Rightarrow> nat \<Rightarrow> appointment list" where
  \<comment> \<open>\<open>patient.appointments\<close>: the rows whose foreign key is the patient's id.\<close>
  "appointments_of db pid = filter (\<lambda>a. patient_id a = Some pid) (appointments db)"

datatype dialog = ShowInfo string string | ShowError string string

fun str_error :: "error \<Rightarrow> string" where
  "str_error (ValueError m) = m"
| "str_error (KeyError k) = [CHR 0x27] @ k @ [CHR 0x27]"
| "str_error (IntegrityError m) = m"

subsection \<open>Add patient and appointment\<close>

record add_form =
  name_entry :: string
  phone_entry :: string
  patient_treatment_entry :: string
  teeth_var :: string
  date_picker :: date
  appointment_treatment_combobox :: string
  dentist_combobox :: string
  fee_entry :: string
  notes_entry :: string

definition upsert_body ::
  "string \<Rightarrow> string \<Rightarrow> string \<Rightarrow> string \<Rightarrow> date \<Rightarrow> string \<Rightarrow> string \<Rightarrow> pyfloat option
     \<Rightarrow> string \<Rightarrow> database \<Rightarrow> (error + unit) \<times> database" where
  \<comment> \<open>The body of the \<open>with session_scope()\<close> block of \<open>save\<close>.\<close>
  "upsert_body name phone patient_treatment teeth_loc app_date appointment_treatment
       dentist_name fee_val notes_val session =
     (let (patient, session) =
            (case query_by_phone session phone of
               None \<Rightarrow>
                 (let patient = \<lparr>p_id = next_id (map p_id (patients session)),
                                 patient_name = name, phone_number = phone,
                                 treatment_type = Some patient_treatment,
                                 teeth_location = Some teeth_loc\<rparr>
                  in (patient, session\<lparr>patients := patients session @ [patient]\<rparr>))
             | Some found \<Rightarrow>
                 (let patient = found\<lparr>patient_name := name,
                                      treatment_type := Some patient_treatment,
                                      teeth_location := Some teeth_loc\<rparr>
                  in (patient,
                      session\<lparr>patients :=
                        map (\<lambda>q. if p_id q = p_id found then patient else q)
                            (patients session)\<rparr>)));
          new_app = \<lparr>a_id = next_id (map a_id (appointments session)),
                     appointment_date = app_date,
                     a_treatment_type = appointment_treatment,
                     dentist = dentist_name, fee = fee_val, app_notes = Some notes_val,
                     patient_id = Some (p_id patient)\<rparr>
      in (Inr (), session\<lparr>appointments := appointments session @ [new_app]\<rparr>))"

definition save_try :: "database \<Rightarrow> add_form \<Rightarrow> (error + string) \<times> database" where
  \<comment> \<open>The \<open>try\<close> block of \<open>save\<close>: the checks in the order of the source, then the unit of
      work. The result is the name shown in the success message.\<close>
  "save_try store form =
     (let name = strip (name_entry form) in
      if name = [] then (Inl (ValueError ''Patient name cannot be empty.''), store)
      else
        case validate_phone (strip (phone_entry form)) of
          None \<Rightarrow> (Inl (ValueError ''Invalid phone number.''), store)
        | Some phone \<Rightarrow>
            if phone = [] then (Inl (ValueError ''Invalid phone number.''), store)
            else
              let patient_treatment = strip (patient_treatment_entry form);
                  teeth_loc = teeth_var form;
                  app_date = date_picker form;
                  appointment_treatment = strip (appointment_treatment_combobox form)
              in if appointment_treatment = []
                 then (Inl (ValueError ''Appointment treatment type is required.''), store)
                 else
                   let dentist_name = strip (dentist_combobox form) in
                   if dentist_name = []
                   then (Inl (ValueError ''Dentist name is required.''), store)
                   else
                     let fee_val = validate_fee (strip (fee_entry form));
                         notes_val = strip (notes_entry form)
                     in (case session_scope store
                               (upsert_body name phone patient_treatment teeth_loc app_date
                                  appointment_treatment dentist_name fee_val notes_val) of
                           (Inl e, store') \<Rightarrow> (Inl e, store')
                         | (Inr u, store') \<Rightarrow> (Inr name, store')))"

definition save :: "database \<Rightarrow> add_form \<Rightarrow> dialog \<times> database" where
  "save store form =
     (case save_try store form of
        (Inl e, store') \<Rightarrow> (ShowError ''Error'' (str_error e), store')
      | (Inr name, store') \<Rightarrow>
          (ShowInfo ''Success''
             (''Patient '' @ [CHR 0x27] @ name @ [CHR 0x27]
                @ '' and appointment added successfully.''), store'))"

subsection \<open>Delete patient\<close>

definition delete_body :: "string \<Rightarrow> bool \<Rightarrow> database \<Rightarrow> (error + bool) \<times> database" where
  \<comment> \<open>The body of the unit of work of \<open>delete_patient_gui\<close>; \<open>confirm\<close> is the answer to the
      confirmation dialog. The result tells whether the body ran to its end (True) or left
      by the \<open>return\<close> after a refused confirmation (False). \<open>session.delete(patient)\<close>
      removes the row and, by the cascade of the relationship, the patient's appointments.\<close>
  "delete_body phone confirm session =
     (case query_by_phone session phone of
        None \<Rightarrow> (Inl (ValueError ''Patient not found.''), session)
      | Some patient \<Rightarrow>
          if \<not> confirm then (Inr False, session)
          else (Inr True,
                session\<lparr>patients := filter (\<lambda>q. p_id q \<noteq> p_id patient) (patients session),
                        appointments :=
                          filter (\<lambda>a. patient_id a \<noteq> Some (p_id patient))
                                 (appointments session)\<rparr>))"

definition delete_patient_gui ::
  "database \<Rightarrow> string option \<Rightarrow> bool \<Rightarrow> dialog option \<times> database" where
  \<comment> \<open>\<open>answer\<close> is what the phone dialog returns, None when it is cancelled.\<close>
  "delete_patient_gui store answer confirm =
     (case answer of
        None \<Rightarrow> (None, store)
      | Some raw \<Rightarrow>
          (case validate_phone (strip raw) of
             None \<Rightarrow> (Some (ShowError ''Error'' ''Invalid phone number.''), store)
           | Some phone \<Rightarrow>
               if phone = [] then (Some (ShowError ''Error'' ''Invalid phone number.''), store)
               else
                 (case session_scope store (delete_body phone confirm) of
                    (Inl e, store') \<Rightarrow> (Some (ShowError ''Error'' (str_error e)), store')
                  | (Inr False, store') \<Rightarrow> (None, store')
                  | (Inr True, store') \<Rightarrow>
                      (Some (ShowInfo ''Deleted''
                         (''Patient with phone '' @ [CHR 0x27] @ phone @ [CHR 0x27]
                            @ '' deleted.'')), store'))))"

subsection \<open>Modify patient\<close>

record mod_window =
  patient_obj :: patient
  mod_name_entry :: string
  mod_treatment_entry :: string
  mod_teeth_var :: string

definition modify_body :: "string \<Rightarrow> database \<Rightarrow> (error + mod_window) \<times> database" where
  \<comment> \<open>The body of the unit of work of \<open>modify_patient_gui\<close>: it finds the patient and
      builds the window, whose entries start with the patient's fields. It writes nothing.\<close>
  "modify_body phone session =
     (case query_by_phone session phone of
        None \<Rightarrow> (Inl (ValueError ''Patient not found.''), session)
      | Some patient \<Rightarrow>
          (Inr \<lparr>patient_obj = patient,
                mod_name_entry = patient_name patient,
                mod_treatment_entry =
                  (case treatment_type patient of None \<Rightarrow> [] | Some t \<Rightarrow> t),
                mod_teeth_var =
                  (case teeth_location patient of None \<Rightarrow> [] | Some t \<Rightarrow> t)\<rparr>,
           session))"

definition modify_patient_gui ::
  "database \<Rightarrow> string option \<Rightarrow> (dialog + mod_window option) \<times> database" where
  \<comment> \<open>The unit of work ends (commit, close) when the \<open>with\<close> block is left, before
      \<open>modify_patient_gui\<close> returns to the event loop: the window it leaves open holds the
      patient object of a closed session.\<close>
  "modify_patient_gui store answer =
     (case answer of
        None \<Rightarrow> (Inr None, store)
      | Some raw \<Rightarrow>
          (case validate_phone (strip raw) of
             None \<Rightarrow> (Inl (ShowError ''Error'' ''Invalid phone number.''), store)
           | Some phone \<Rightarrow>
               if phone = [] then (Inl (ShowError ''Error'' ''Invalid phone number.''), store)
               else
                 (case session_scope store (modify_body phone) of
                    (Inl e, store') \<Rightarrow> (Inl (ShowError ''Error'' (str_error e)), store')
                  | (Inr w, store') \<Rightarrow> (Inr (Some w), store'))))"

definition save_modifications :: "mod_window \<Rightarrow> dialog \<times> mod_window" where
  \<comment> \<open>The callback of the Save Changes button. It runs from the event loop, after the unit
      of work of \<open>modify_patient_gui\<close> has ended: the assignments change the attributes of
      the patient object in memory, and no session is there to write them to the store.\<close>
  "save_modifications w =
     (let new_name = strip (mod_name_entry w) in
      if new_name = [] then (ShowError ''Error'' ''Patient name cannot be empty.'', w)
      else
        (ShowInfo ''Success'' ''Patient details updated.'',
         w\<lparr>patient_obj := (patient_obj w)\<lparr>patient_name := new_name,
               treatment_type := Some (strip (mod_treatment_entry w)),
               teeth_location := Some (mod_teeth_var w)\<rparr>\<rparr>))"

definition modify_patient ::
  "database \<Rightarrow> string \<Rightarrow> string \<Rightarrow> string \<Rightarrow> string \<Rightarrow> dialog option \<times> database" where
  \<comment> \<open>The whole action: the phone is entered, the window opens, the user types the new
      values into the entries and presses Save Changes.\<close>
  "modify_patient store raw new_name new_treatment new_teeth =
     (case modify_patient_gui store (Some raw) of
        (Inl d, store') \<Rightarrow> (Some d, store')
      | (Inr None, store') \<Rightarrow> (None, store')
      | (Inr (Some w), store') \<Rightarrow>
          (Some (fst (save_modifications
                   (w\<lparr>mod_name_entry := new_name, mod_treatment_entry := new_treatment,
                       mod_teeth_var := new_teeth\<rparr>))),
           store'))"

subsection \<open>Search\<close>

fun like_match :: "string \<Rightarrow> string \<Rightarrow> bool" where
  \<comment> \<open>The SQL operator \<open>text LIKE pattern\<close>: \<open>%\<close> stands for any run of characters, \<open>_\<close>
      for any one character.\<close>
  "like_match [] s = (s = [])"
| "like_match (p # ps) s =
     (if p = CHR ''%'' then
        like_match ps s \<or> (case s of [] \<Rightarrow> False | c # cs \<Rightarrow> like_match (p # ps) cs)
      else
        (case s of
           [] \<Rightarrow> False
         | c # cs \<Rightarrow> (p = CHR ''_'' \<or> p = c) \<and> like_match ps cs))"

definition ilike :: "string option \<Rightarrow> string \<Rightarrow> bool" where
  \<comment> \<open>\<open>column.ilike(pattern)\<close>, which is \<open>lower(column) LIKE lower(pattern)\<close>; \<open>lower\<close> folds
      the ASCII letters. A NULL column does not match.\<close>
  "ilike column pattern =
     (case column of
        None \<Rightarrow> False
      | Some v \<Rightarrow> like_match (map ascii_lower pattern) (map ascii_lower v))"

definition matches :: "database \<Rightarrow> string \<Rightarrow> patient \<Rightarrow> bool" where
  \<comment> \<open>The filter of \<open>show_records\<close>.\<close>
  "matches db query p =
     (let pattern = ''%'' @ query @ ''%'' in
        ilike (Some (patient_name p)) pattern
      \<or> ilike (Some (phone_number p)) pattern
      \<or> ilike (treatment_type p) pattern
      \<or> ilike (teeth_location p) pattern
      \<or> list_ex (\<lambda>a. ilike (Some (a_treatment_type a)) pattern) (appointments_of db (p_id p)))"

definition patient_rows :: "database \<Rightarrow> patient \<Rightarrow> (patient \<times> appointment option) list" where
  \<comment> \<open>The rows of the tree for one patient: one for each appointment, in the order of
      \<open>sorted(patient.appointments, key=lambda a: a.appointment_date)\<close>, or a single row
      with blank appointment columns. A row is given as the patient and the appointment
      whose fields it shows; the formatting of the fields to text is left out.\<close>
  "patient_rows session p =
     (let apps = appointments_of session (p_id p) in
      if apps \<noteq> [] then map (\<lambda>a. (p, Some a)) (sort_key appointment_date apps)
      else [(p, None)])"

definition records_body ::
  "string option \<Rightarrow> database \<Rightarrow> (error + (patient \<times> appointment option) list) \<times> database" where
  \<comment> \<open>The body of the unit of work of \<open>show_records\<close>: the query, filtered when the search
      term is neither None nor empty, and the loop over the patients found.\<close>
  "records_body query session =
     (let q = (if query \<noteq> None \<and> query \<noteq> Some []
               then filter (matches session (the query)) (patients session)
               else patients session)
      in (Inr (concat (map (patient_rows session) q)), session))"

definition show_records ::
  "database \<Rightarrow> string option \<Rightarrow> (error + (patient \<times> appointment option) list) \<times> database" where
  "show_records store query = session_scope store (records_body query)"

text \<open>The words of the specification, to compare the code with.\<close>

definition ci_contains :: "string \<Rightarrow> string \<Rightarrow> bool" where
  \<comment> \<open>\<open>s\<close> contains \<open>tm\<close>, the case of the ASCII letters ignored.\<close>
  "ci_contains tm s = contains_str (map ascii_lower tm) (map ascii_lower s)"

definition opt_contains :: "string \<Rightarrow> string option \<Rightarrow> bool" where
  "opt_contains tm column = (case column of None \<Rightarrow> False | Some v \<Rightarrow> ci_contains tm v)"

definition search_spec :: "database \<Rightarrow> string \<Rightarrow> patient \<Rightarrow> bool" where
  "search_spec db tm p =
     (ci_contains tm (patient_name p) \<or> ci_contains tm (phone_number p)
      \<or> opt_contains tm (treatment_type p) \<or> opt_contains tm (teeth_location p)
      \<or> list_ex (\<lambda>a. ci_contains tm (a_treatment_type a)) (appointments_of db (p_id p)))"

definition listed :: "(patient \<times> appointment option) list \<Rightarrow> patient \<Rightarrow> appointment list" where
  \<comment> \<open>The appointments that the rows show for a patient, in the order of the rows.\<close>
  "listed rows p = List.map_filter snd (filter (\<lambda>r. fst r = p) rows)"

definition integrity :: "database \<Rightarrow> bool" where
  \<comment> \<open>What the schema keeps true of a store: the primary keys and the phone numbers are
      unique.\<close>
  "integrity db =
     (distinct (map p_id (patients db)) \<and> distinct (map phone_number (patients db))
      \<and> distinct (map a_id (appointments db)))"

definition form_ok :: "add_form \<Rightarrow> string \<Rightarrow> bool" where
  \<comment> \<open>The checks of \<open>save\<close> pass, and \<open>phone\<close> is the validated phone.\<close>
  "form_ok form phone =
     (strip (name_entry form) \<noteq> []
      \<and> validate_phone (strip (phone_entry form)) = Some phone
      \<and> strip (appointment_treatment_combobox form) \<noteq> []
      \<and> strip (dentist_combobox form) \<noteq> [])"

definition upserted :: "database \<Rightarrow> add_form \<Rightarrow> string \<Rightarrow> patient" where
  \<comment> \<open>The patient row the specification expects after the form is saved: the row of the
      phone if there is one, a new row otherwise, with the fields of the form.\<close>
  "upserted store form phone =
     \<lparr>p_id = (case query_by_phone store phone of
                 None \<Rightarrow> next_id (map p_id (patients store))
               | Some found \<Rightarrow> p_id found),
      patient_name = strip (name_entry form),
      phone_number = phone,
      treatment_type = Some (strip (patient_treatment_entry form)),
      teeth_location = Some (teeth_var form)\<rparr>"

definition success_message :: "add_form \<Rightarrow> string" where
  "success_message form =
     ''Patient '' @ [CHR 0x27] @ strip (name_entry form) @ [CHR 0x27]
       @ '' and appointment added successfully.''"

section \<open>Example data\<close>

text \<open>The patients of the search scenario of the specification, and some appointments.\<close>

definition ann :: patient where
  "ann = \<lparr>p_id = 1, patient_name = ''Ann'', phone_number = ''+10000000'',
           treatment_type = Some ''Cleaning'', teeth_location = None\<rparr>"

definition bob :: patient where
  "bob = \<lparr>p_id = 2, patient_name = ''Bob'', phone_number = ''+20000000'',
           treatment_type = Some ''Filling'', teeth_location = None\<rparr>"

definition visit :: "nat \<Rightarrow> date \<Rightarrow> string \<Rightarrow> nat \<Rightarrow> appointment" where
  "visit i d treatment pid =
     \<lparr>a_id = i, appointment_date = d, a_treatment_type = treatment, dentist = ''Noha'',
      fee = None, app_notes = Some [], patient_id = Some pid\<rparr>"

definition clinic :: database where
  "clinic = \<lparr>patients = [ann, bob], appointments = []\<rparr>"

definition clinic_visits :: database where
  "clinic_visits =
     \<lparr>patients = [ann, bob],
      appointments = [visit 1 (2024, 5, 20) ''Crown'' 1, visit 2 (2024, 3, 7) ''Implant'' 2,
                      visit 3 (2024, 1, 15) ''Whitening'' 1]\<rparr>"

definition empty_clinic :: database where
  "empty_clinic = \<lparr>patients = [], appointments = []\<rparr>"

definition ann_form :: "string \<Rightarrow> string \<Rightarrow> add_form" where
  \<comment> \<open>A filled-in form for the phone of Ann, with the given name and fee entries.\<close>
  "ann_form name fee_text =
     \<lparr>name_entry = name, phone_entry = ''+10000000'', patient_treatment_entry = ''Cleaning'',
      teeth_var = ''UL1'', date_picker = (2024, 6, 1),
      appointment_treatment_combobox = ''Filling'', dentist_combobox = ''Noha'',
      fee_entry = fee_text, notes_entry = []\<rparr>"

definition duplicate_insert :: "database \<Rightarrow> (error + unit) \<times> database" where
  \<comment> \<open>A unit of work that adds a second row with the phone of Ann and ends normally; the
      unique constraint refuses it at the commit.\<close>
  "duplicate_insert session =
     (Inr (), session\<lparr>patients := patients session @ [ann\<lparr>p_id := 3\<rparr>]\<rparr>)"

section \<open>The teeth selector: serialisation, toggling and parsing\<close>

lemma lex_le_iff: "lex_le xs ys \<longleftrightarrow> xs \<le> ys"
proof (induction xs ys rule: lex_le.induct)
  case (1 ys)
  show ?case by simp
next
  case (2 x xs)
  show ?case by simp
next
  case (3 x xs y ys)
  then show ?case
    by (auto simp: less_char_def)
qed

lemma sorted_wrt_lex_le: "sorted_wrt lex_le xs = sorted xs"
  by (induction xs) (auto simp: lex_le_iff)

text \<open>
  Claim C8. For every finite set of tooth tokens, the serialisation is the tokens of the
  set, each once, in ascending lexicographic order, joined with a comma and a blank; the
  set of \<open>LR3\<close>, \<open>UL8\<close> and \<open>LL1\<close> is serialised as \<open>LL1, LR3, UL8\<close>.
\<close>

theorem serialize_sorted_join:
  "(finite T \<longrightarrow>
      (\<exists>xs. serialize T = join '', '' xs \<and> set xs = T \<and> distinct xs \<and> sorted_wrt lex_le xs))
   \<and> serialize {''LR3'', ''UL8'', ''LL1''} = ''LL1, LR3, UL8''"
proof
  show "finite T \<longrightarrow>
      (\<exists>xs. serialize T = join '', '' xs \<and> set xs = T \<and> distinct xs \<and> sorted_wrt lex_le xs)"
  proof
    assume "finite T"
    then have "set (sorted_list_of_set T) = T" "distinct (sorted_list_of_set T)"
      "sorted_wrt lex_le (sorted_list_of_set T)"
      by (simp_all add: sorted_wrt_lex_le)
    then show "\<exists>xs. serialize T = join '', '' xs \<and> set xs = T \<and> distinct xs
        \<and> sorted_wrt lex_le xs"
      unfolding serialize_def by blast
  qed
  show "serialize {''LR3'', ''UL8'', ''LL1''} = ''LL1, LR3, UL8''"
    by (simp add: serialize_def)
qed

theorem serialize_sorted_join_witness:
  "finite {''UR2'', ''UL1''} \<and>
   (\<exists>xs. serialize {''UR2'', ''UL1''} = join '', '' xs \<and> set xs = {''UR2'', ''UL1''}
       \<and> distinct xs \<and> sorted_wrt lex_le xs)"
  using serialize_sorted_join [of "{''UR2'', ''UL1''}"] by simp

subsection \<open>Every tooth of the four quadrants has a button\<close>

lemma numbers_of_set: "1 \<le> num \<Longrightarrow> num \<le> 8 \<Longrightarrow> num \<in> set (numbers_of qname)"
proof -
  assume "1 \<le> num" "num \<le> 8"
  then have "nat num \<in> {1 ..< 9}" "num = int (nat num)" by auto
  then have "num \<in> int ` {1 ..< 9}" by blast
  then show ?thesis by (simp add: numbers_of_def)
qed

lemma quadrant_buttons_dom:
  "dom (quadrant_buttons sel q ns bs) = dom bs \<union> (\<lambda>i. q @ str_int i) ` set ns"
  unfolding quadrant_buttons_def
  by (induction ns arbitrary: bs) (auto simp: Let_def)

lemma quadrants_dom:
  "dom (fold (\<lambda>(qname, qabbr) bs. quadrant_buttons sel qabbr (numbers_of qname) bs) qs bs0)
     = dom bs0
       \<union> (\<Union>(qname, qabbr) \<in> set qs. (\<lambda>i. qabbr @ str_int i) ` set (numbers_of qname))"
proof (induction qs arbitrary: bs0)
  case Nil
  show ?case by simp
next
  case (Cons a qs)
  obtain qname qabbr where a: "a = (qname, qabbr)" by (cases a)
  show ?case
    unfolding a by (simp add: Cons.IH quadrant_buttons_dom Un_assoc)
qed

lemma button_exists:
  assumes "qabbr \<in> snd ` set quadrant_info" "1 \<le> num" "num \<le> 8"
  shows "make_buttons sel (qabbr @ str_int num) \<noteq> None"
proof -
  from assms(1) obtain qname where q: "(qname, qabbr) \<in> set quadrant_info" by auto
  have "qabbr @ str_int num \<in> (\<lambda>i. qabbr @ str_int i) ` set (numbers_of qname)"
    using numbers_of_set [OF assms(2,3)] by blast
  with q have "qabbr @ str_int num \<in> dom (make_buttons sel)"
    unfolding make_buttons_def quadrants_dom by blast
  then show ?thesis by blast
qed

lemma toggle_spec_twice: "toggle_spec (toggle_spec S t) t = S"
  by (auto simp: toggle_spec_def)

lemma toggle_tooth_button:
  assumes "buttons st (qabbr @ str_int num) \<noteq> None"
  shows "\<exists>st'. toggle_tooth st qabbr num = Inr st'
           \<and> selected_teeth st' = toggle_spec (selected_teeth st) (qabbr @ str_int num)
           \<and> buttons st' (qabbr @ str_int num) \<noteq> None"
  using assms by (auto simp: toggle_tooth_def toggle_spec_def Let_def)

text \<open>
  Claim C6. For every serialised teeth string \<open>s\<close> and every tooth of the selector (a
  quadrant prefix and a number from 1 to 8), toggling the tooth on the parsed set removes
  it if it is there and adds it otherwise, with no other change, and toggling it twice
  gives back the parsed set, so the serialisation after two toggles is the serialisation
  of the parsed set.
\<close>

theorem toggle_twice_roundtrip:
  assumes "qabbr \<in> snd ` set quadrant_info" "1 \<le> num" "num \<le> 8"
  shows "\<exists>st1 st2.
           toggle_tooth (open_teeth_selector s) qabbr num = Inr st1
         \<and> toggle_tooth st1 qabbr num = Inr st2
         \<and> selected_teeth st1 = toggle_spec (parse_selection s) (qabbr @ str_int num)
         \<and> selected_teeth st2 = parse_selection s
         \<and> on_ok st2 = serialize (parse_selection s)"
proof -
  let ?t = "qabbr @ str_int num"
  let ?st = "open_teeth_selector s"
  have b: "buttons ?st ?t \<noteq> None"
    using button_exists [OF assms] by (simp add: open_teeth_selector_def Let_def)
  have sel: "selected_teeth ?st = parse_selection s"
    by (simp add: open_teeth_selector_def Let_def)
  from toggle_tooth_button [OF b] obtain st1 where 1: "toggle_tooth ?st qabbr num = Inr st1"
    and s1: "selected_teeth st1 = toggle_spec (selected_teeth ?st) ?t"
    and b1: "buttons st1 ?t \<noteq> None"
    by blast
  from toggle_tooth_button [OF b1] obtain st2 where 2: "toggle_tooth st1 qabbr num = Inr st2"
    and s2: "selected_teeth st2 = toggle_spec (selected_teeth st1) ?t"
    by blast
  have "selected_teeth st2 = parse_selection s"
    by (simp add: s2 s1 sel toggle_spec_twice)
  with 1 2 s1 sel show ?thesis by (simp add: on_ok_def)
qed

theorem toggle_twice_roundtrip_witness:
  "''UL'' \<in> snd ` set quadrant_info \<and> (1::int) \<le> 3 \<and> (3::int) \<le> 8 \<and>
   (\<exists>st1 st2.
           toggle_tooth (open_teeth_selector ''LL1, UL3'') ''UL'' 3 = Inr st1
         \<and> toggle_tooth st1 ''UL'' 3 = Inr st2
         \<and> selected_teeth st1 = toggle_spec (parse_selection ''LL1, UL3'') (''UL'' @ str_int 3)
         \<and> selected_teeth st2 = parse_selection ''LL1, UL3''
         \<and> on_ok st2 = serialize (parse_selection ''LL1, UL3''))"
proof -
  have h: "''UL'' \<in> snd ` set quadrant_info" by (simp add: quadrant_info_def)
  show ?thesis
    using h toggle_twice_roundtrip [OF h, of 3 "''LL1, UL3''"] by simp
qed

subsection \<open>Parsing a serialisation\<close>

lemma split_on_nonempty: "split_on sep s \<noteq> []"
  by (induction s) (auto split: list.splits)

lemma split_on_no_sep: "sep \<notin> set x \<Longrightarrow> split_on sep x = [x]"
  by (induction x) auto

lemma split_on_append: "sep \<notin> set x \<Longrightarrow> split_on sep (x @ sep # r) = x # split_on sep r"
  by (induction x) auto

lemma strip_clean:
  assumes "t \<noteq> []" "\<not> is_space (hd t)" "\<not> is_space (last t)"
  shows "strip t = t"
proof -
  from assms have a: "dropWhile is_space t = t"
    by (cases t) auto
  from assms have "rev t \<noteq> []" "\<not> is_space (hd (rev t))"
    by (simp_all add: hd_rev)
  then have "dropWhile is_space (rev t) = rev t"
    by (cases "rev t") auto
  with a show ?thesis by (simp add: strip_def)
qed

lemma is_space_blank: "is_space CHR '' ''"
  by (simp add: is_space_def)

lemma strip_blank: "strip (CHR '' '' # t) = strip t"
  by (simp add: strip_def is_space_blank)

lemma parts_of_join:
  assumes "\<forall>x \<in> set xs. CHR '','' \<notin> set x" "xs \<noteq> []"
  shows "split_on CHR '','' (join '', '' xs) = hd xs # map ((#) CHR '' '') (tl xs)"
  using assms
proof (induction xs rule: induct_list012)
  case 1
  then show ?case by simp
next
  case (2 x)
  then show ?case by (simp add: split_on_no_sep)
next
  case More: (3 x y ys)
  have nx: "CHR '','' \<notin> set x" using More.prems by simp
  have "split_on CHR '','' (join '', '' (x # y # ys))
        = x # split_on CHR '','' (CHR '' '' # join '', '' (y # ys))"
    using split_on_append [OF nx] by simp
  also have "split_on CHR '','' (CHR '' '' # join '', '' (y # ys))
        = (CHR '' '' # hd (split_on CHR '','' (join '', '' (y # ys))))
          # tl (split_on CHR '','' (join '', '' (y # ys)))"
    using split_on_nonempty [of "CHR '',''" "join '', '' (y # ys)"]
    by (auto split: list.splits)
  also have "split_on CHR '','' (join '', '' (y # ys)) = y # map ((#) CHR '' '') ys"
    using More by simp
  finally show ?case by simp
qed

lemma join_nonempty: "xs \<noteq> [] \<Longrightarrow> hd xs \<noteq> [] \<Longrightarrow> join sep xs \<noteq> []"
  by (induction xs rule: induct_list012) auto

lemma fold_parse:
  "fold (\<lambda>tooth sel. let tooth = strip tooth in
                        if tooth \<noteq> [] then insert tooth sel else sel) ps S
     = S \<union> {t \<in> strip ` set ps. t \<noteq> []}"
  by (induction ps arbitrary: S) (auto simp: Let_def)

text \<open>
  Claim C10. For every finite set \<open>T\<close> of tokens that are not empty, hold no comma and
  neither start nor end with a whitespace character, parsing the serialisation of \<open>T\<close>
  gives \<open>T\<close> back.
\<close>

theorem parse_serialize_roundtrip:
  assumes "finite T"
    and "\<forall>t \<in> T. t \<noteq> [] \<and> CHR '','' \<notin> set t \<and> \<not> is_space (hd t) \<and> \<not> is_space (last t)"
  shows "parse_selection (serialize T) = T"
proof (cases "T = {}")
  case True
  then show ?thesis by (simp add: serialize_def parse_selection_def)
next
  case False
  define xs where "xs = sorted_list_of_set T"
  have sx: "set xs = T" using assms(1) by (simp add: xs_def)
  then have ne: "xs \<noteq> []" using False by auto
  have nocomma: "\<forall>x \<in> set xs. CHR '','' \<notin> set x" using assms(2) sx by simp
  have nonempty: "\<forall>x \<in> set xs. x \<noteq> []" using assms(2) sx by simp
  have parts: "split_on CHR '','' (join '', '' xs) = hd xs # map ((#) CHR '' '') (tl xs)"
    using parts_of_join [OF nocomma ne] .
  have st: "strip ` set (hd xs # map ((#) CHR '' '') (tl xs)) = set xs"
  proof -
    have "\<And>x. x \<in> set xs \<Longrightarrow> strip x = x"
      using assms(2) sx by (simp add: strip_clean)
    moreover have "set xs = insert (hd xs) (set (tl xs))"
      using ne by (cases xs) auto
    moreover have "set (tl xs) \<subseteq> set xs" using ne by (cases xs) auto
    ultimately show ?thesis
      by (auto simp: strip_blank image_iff intro!: bexI)
  qed
  have "join '', '' xs \<noteq> []"
    using ne nonempty by (simp add: join_nonempty)
  then have "parse_selection (join '', '' xs)
      = fold (\<lambda>tooth sel. let tooth = strip tooth in
                              if tooth \<noteq> [] then insert tooth sel else sel)
             (split_on CHR '','' (join '', '' xs)) {}"
    by (simp add: parse_selection_def)
  also have "\<dots> = {} \<union> {t \<in> strip ` set (split_on CHR '','' (join '', '' xs)). t \<noteq> []}"
    by (rule fold_parse)
  also have "\<dots> = {t \<in> set xs. t \<noteq> []}"
    unfolding parts st by simp
  finally show ?thesis using nonempty sx by (auto simp: serialize_def xs_def)
qed

theorem parse_serialize_roundtrip_witness:
  "finite {''UR2'', ''LL1''}
   \<and> ''UR2'' \<noteq> [] \<and> CHR '','' \<notin> set ''UR2''
   \<and> \<not> is_space (hd ''UR2'') \<and> \<not> is_space (last ''UR2'')
   \<and> ''LL1'' \<noteq> [] \<and> CHR '','' \<notin> set ''LL1''
   \<and> \<not> is_space (hd ''LL1'') \<and> \<not> is_space (last ''LL1'')
   \<and> parse_selection (serialize {''UR2'', ''LL1''}) = {''UR2'', ''LL1''}"
proof -
  have h: "\<forall>t \<in> {''UR2'', ''LL1''}.
         t \<noteq> [] \<and> CHR '','' \<notin> set t \<and> \<not> is_space (hd t) \<and> \<not> is_space (last t)"
    by (simp add: is_space_def)
  show ?thesis
    using h parse_serialize_roundtrip [OF _ h] by simp
qed

section \<open>Validation of the fee\<close>





section \<open>Facts about the example data\<close>

lemma example_facts:
  "integrity clinic" "integrity clinic_visits" "integrity empty_clinic"
  "form_ok (ann_form ''Anna'' ''30'') ''+10000000''"
  "form_ok (ann_form ''Anne'' []) ''+10000000''"
  "form_ok (ann_form ''Ann'' ''-5'') ''+10000000''"
  "form_ok (ann_form ''Ann'' ''abc'') ''+10000000''"
  "validate_phone (strip '' +10000000 '') = Some ''+10000000''"
  "validate_phone (strip ''+30000000'') = Some ''+30000000''"
  "query_by_phone clinic_visits ''+10000000'' = Some ann"
  "query_by_phone clinic_visits ''+30000000'' = None"
  by code_simp+


section \<open>The unit of work\<close>

lemma session_scope_error:
  "fst (session_scope store body) = Inl e \<Longrightarrow> snd (session_scope store body) = store"
  by (auto simp: session_scope_def split: prod.splits sum.splits)

lemma session_scope_cases:
  "session_scope store body = (Inl e, s') \<Longrightarrow> s' = store"
  using session_scope_error [of store body e] by simp

lemma session_scope_readonly:
  "snd (body store) = store \<Longrightarrow> snd (session_scope store body) = store"
  by (auto simp: session_scope_def commit_def split: prod.splits sum.splits)

lemma session_scope_commit:
  "body store = (Inr r, work) \<Longrightarrow> distinct (map phone_number (patients work)) \<Longrightarrow>
     session_scope store body = (Inr r, work)"
  by (simp add: session_scope_def commit_def)

lemma session_scope_raise:
  "body store = (Inl e, work) \<Longrightarrow> session_scope store body = (Inl e, store)"
  by (simp add: session_scope_def)

lemma modify_body_readonly: "snd (modify_body phone session) = session"
  by (simp add: modify_body_def split: option.splits)

lemma modify_patient_gui_store: "snd (modify_patient_gui store answer) = store"
proof -
  have "snd (session_scope store (modify_body phone)) = store" for phone
    by (rule session_scope_readonly) (rule modify_body_readonly)
  then have "session_scope store (modify_body phone) = (r, s') \<Longrightarrow> s' = store" for phone r s'
    by (metis snd_conv)
  then show ?thesis
    by (auto simp: modify_patient_gui_def split: option.splits prod.splits sum.splits)
qed

lemma show_records_store: "snd (show_records store query) = store"
  unfolding show_records_def
  by (rule session_scope_readonly) (simp add: records_body_def Let_def)

text \<open>
  Claim C4. Every store operation runs in one unit of work. When the body of a unit of
  work raises, the error reaches the caller and the store is as it was before; whenever a
  unit of work ends with an error (of the body or of the commit) the store is as it was
  before; when it ends without error the store is the body's view of it. So a save or a
  delete that reports an error leaves the store as it was, and the units of work that only
  read (the lookup of the modify dialog, the listing of the records) never change it.
\<close>

theorem session_scope_atomic:
  "(fst (body store) = Inl e \<longrightarrow> session_scope store body = (Inl e, store))
   \<and> (\<forall>e'. fst (session_scope store body) = Inl e' \<longrightarrow> snd (session_scope store body) = store)
   \<and> (\<forall>r. fst (session_scope store body) = Inr r \<longrightarrow>
          fst (body store) = Inr r \<and> snd (session_scope store body) = snd (body store))
   \<and> (\<forall>m. fst (save store form) = ShowError ''Error'' m \<longrightarrow> snd (save store form) = store)
   \<and> (\<forall>m. fst (delete_patient_gui store answer confirm) = Some (ShowError ''Error'' m) \<longrightarrow>
          snd (delete_patient_gui store answer confirm) = store)
   \<and> snd (modify_patient_gui store answer) = store
   \<and> snd (show_records store query) = store"
proof (intro conjI allI impI)
  show "session_scope store body = (Inl e, store)" if "fst (body store) = Inl e"
    using that by (cases "body store") (simp add: session_scope_def)
  show "snd (session_scope store body) = store" if "fst (session_scope store body) = Inl e'" for e'
    using that by (rule session_scope_error)
  show "fst (body store) = Inr r" if "fst (session_scope store body) = Inr r" for r
    using that by (auto simp: session_scope_def commit_def split: prod.splits sum.splits if_splits)
  show "snd (session_scope store body) = snd (body store)"
    if "fst (session_scope store body) = Inr r" for r
    using that by (auto simp: session_scope_def commit_def split: prod.splits sum.splits if_splits)
  show "snd (save store form) = store" if "fst (save store form) = ShowError ''Error'' m" for m
    using that
    by (auto simp: save_def save_try_def Let_def
        split: prod.splits sum.splits option.splits if_splits dest: session_scope_cases)
  show "snd (delete_patient_gui store answer confirm) = store"
    if "fst (delete_patient_gui store answer confirm) = Some (ShowError ''Error'' m)" for m
    using that
    by (auto simp: delete_patient_gui_def
        split: prod.splits sum.splits option.splits if_splits bool.splits
        dest: session_scope_cases)
  show "snd (modify_patient_gui store answer) = store"
    by (rule modify_patient_gui_store)
  show "snd (show_records store query) = store"
    by (rule show_records_store)
qed

theorem session_scope_atomic_witness:
  "fst (delete_body ''+30000000'' True clinic) = Inl (ValueError ''Patient not found.'')
   \<and> session_scope clinic (delete_body ''+30000000'' True)
       = (Inl (ValueError ''Patient not found.''), clinic)
   \<and> fst (session_scope clinic duplicate_insert)
       = Inl (IntegrityError ''UNIQUE constraint failed: patients.phone_number'')
   \<and> snd (duplicate_insert clinic) \<noteq> clinic
   \<and> snd (session_scope clinic duplicate_insert) = clinic
   \<and> fst (save clinic (ann_form [] ''5'')) = ShowError ''Error'' ''Patient name cannot be empty.''
   \<and> snd (save clinic (ann_form [] ''5'')) = clinic
   \<and> fst (delete_patient_gui clinic (Some ''+30000000'') True)
       = Some (ShowError ''Error'' ''Patient not found.'')
   \<and> snd (delete_patient_gui clinic (Some ''+30000000'') True) = clinic"
proof -
  have 1: "fst (delete_body ''+30000000'' True clinic) = Inl (ValueError ''Patient not found.'')"
    by code_simp
  have 2: "fst (session_scope clinic duplicate_insert)
       = Inl (IntegrityError ''UNIQUE constraint failed: patients.phone_number'')"
    by code_simp
  have 3: "snd (duplicate_insert clinic) \<noteq> clinic"
    by code_simp
  have 4: "fst (save clinic (ann_form [] ''5'')) = ShowError ''Error'' ''Patient name cannot be empty.''"
    by code_simp
  have 5: "fst (delete_patient_gui clinic (Some ''+30000000'') True)
       = Some (ShowError ''Error'' ''Patient not found.'')"
    by code_simp
  show ?thesis
    using 1 2 3 4 5
      session_scope_atomic [of "delete_body ''+30000000'' True" clinic
        "ValueError ''Patient not found.''" "ann_form [] ''5''" "Some ''+30000000''" True]
      session_scope_atomic [of duplicate_insert clinic]
    by simp
qed

section \<open>Modify patient\<close>

lemma modify_patient_store: "snd (modify_patient store raw n t l) = store"
  using modify_patient_gui_store [of store "Some raw"]
  by (auto simp: modify_patient_def split: prod.splits sum.splits option.splits)

text \<open>
  Claim C2. The claim asks that a modification of an existing patient with a new name that
  is not empty is written to the store before success is reported, so that a later read by
  the phone gives the new values. The code does not do this: for the patient Ann of the
  example store, changing the name to Anna reports success, and the store is the store it
  was, in which the phone still finds the patient with the name Ann.
\<close>

theorem modify_not_persisted:
  "modify_patient clinic ''+10000000'' ''Anna'' ''Filling'' ''UL1''
     = (Some (ShowInfo ''Success'' ''Patient details updated.''), clinic)
   \<and> query_by_phone clinic ''+10000000'' = Some ann
   \<and> patient_name ann = ''Ann''"
  by code_simp

section \<open>Add patient and appointment\<close>

lemma validate_phone_empty: "validate_phone [] = None"
  by (simp add: validate_phone_def)

lemma if_Some_same: "(if c then Some x else None) = Some p \<Longrightarrow> p = x"
  by (cases c) simp_all

lemma validate_phone_same: "validate_phone x = Some p \<Longrightarrow> p = x"
  unfolding validate_phone_def Let_def by (rule if_Some_same)

lemma validate_phone_Some: "validate_phone x = Some p \<Longrightarrow> p = x \<and> p \<noteq> []"
proof
  assume v: "validate_phone x = Some p"
  then show "p = x" by (rule validate_phone_same)
  with v show "p \<noteq> []" using validate_phone_empty by auto
qed

lemma fold_max_ge: "a \<le> fold max ids a \<and> (\<forall>x \<in> set ids. x \<le> fold max ids (a::nat))"
proof (induction ids arbitrary: a)
  case Nil
  show ?case by simp
next
  case (Cons i ids)
  from Cons [of "max i a"] show ?case by auto
qed

lemma next_id_fresh: "next_id ids \<notin> set ids"
  using fold_max_ge [of 0 ids] by (auto simp: next_id_def)

lemma query_by_phone_None:
  "query_by_phone db phone = None \<longleftrightarrow> (\<forall>q \<in> set (patients db). phone_number q \<noteq> phone)"
  by (auto simp: query_by_phone_def find_None_iff)

lemma query_by_phone_Some:
  "query_by_phone db phone = Some p \<Longrightarrow> p \<in> set (patients db) \<and> phone_number p = phone"
  by (auto simp: query_by_phone_def find_Some_iff)

lemma distinct_map_others:
  assumes "distinct (map f (xs @ p # ys))" "q \<in> set xs \<union> set ys"
  shows "f q \<noteq> f p"
proof -
  from assms(1) have "f p \<notin> f ` set xs" "f p \<notin> f ` set ys" by simp_all
  with assms(2) show ?thesis by (metis Un_iff image_eqI)
qed

lemma unique_row:
  assumes "distinct (map p_id ps)" "distinct (map phone_number ps)" "p \<in> set ps"
  shows "\<exists>xs ys. ps = xs @ p # ys
           \<and> (\<forall>q \<in> set xs \<union> set ys. p_id q \<noteq> p_id p \<and> phone_number q \<noteq> phone_number p)"
proof -
  from assms(3) obtain xs ys where ps: "ps = xs @ p # ys"
    using split_list by fastforce
  have others: "\<forall>q \<in> set xs \<union> set ys. p_id q \<noteq> p_id p \<and> phone_number q \<noteq> phone_number p"
  proof
    fix q assume q: "q \<in> set xs \<union> set ys"
    show "p_id q \<noteq> p_id p \<and> phone_number q \<noteq> phone_number p"
      using distinct_map_others [OF assms(1) [unfolded ps] q]
        distinct_map_others [OF assms(2) [unfolded ps] q] by simp
  qed
  show ?thesis
  proof (intro exI conjI)
    show "ps = xs @ p # ys" by (rule ps)
    show "\<forall>q \<in> set xs \<union> set ys. p_id q \<noteq> p_id p \<and> phone_number q \<noteq> phone_number p"
      by (rule others)
  qed
qed

lemma filter_none: "(\<forall>q \<in> set xs. \<not> P q) \<Longrightarrow> filter P xs = []"
  by (induction xs) auto

lemma filter_all: "(\<forall>q \<in> set xs. P q) \<Longrightarrow> filter P xs = xs"
  by (induction xs) auto

lemma map_id_on: "(\<forall>q \<in> set xs. f q = q) \<Longrightarrow> map f xs = xs"
  by (induction xs) auto

lemma upsert_body_result:
  assumes "integrity session"
    and row_def: "row = \<lparr>p_id = (case query_by_phone session phone of
                 None \<Rightarrow> next_id (map p_id (patients session))
               | Some found \<Rightarrow> p_id found),
      patient_name = name, phone_number = phone,
      treatment_type = Some pt, teeth_location = Some teeth\<rparr>"
  shows "\<exists>work. upsert_body name phone pt teeth dt atr dn fv nv session = (Inr (), work)
      \<and> integrity work
      \<and> filter (\<lambda>q. phone_number q = phone) (patients work) = [row]
      \<and> filter (\<lambda>q. phone_number q \<noteq> phone) (patients work)
          = filter (\<lambda>q. phone_number q \<noteq> phone) (patients session)
      \<and> length (patients work)
          = (if query_by_phone session phone = None then Suc (length (patients session))
             else length (patients session))
      \<and> appointments work = appointments session @
          [\<lparr>a_id = next_id (map a_id (appointments session)), appointment_date = dt,
            a_treatment_type = atr, dentist = dn, fee = fv, app_notes = Some nv,
            patient_id = Some (p_id row)\<rparr>]"
proof (cases "query_by_phone session phone")
  case None
  then have no: "\<forall>q \<in> set (patients session). phone_number q \<noteq> phone"
    by (simp add: query_by_phone_None)
  have fresh: "next_id (map p_id (patients session)) \<notin> p_id ` set (patients session)"
    using next_id_fresh [of "map p_id (patients session)"] by simp
  have afresh: "next_id (map a_id (appointments session)) \<notin> a_id ` set (appointments session)"
    using next_id_fresh [of "map a_id (appointments session)"] by simp
  have phones: "phone \<notin> phone_number ` set (patients session)" using no by auto
  show ?thesis
    using None assms(1) fresh afresh phones no
    by (simp add: upsert_body_def row_def Let_def integrity_def filter_none filter_all)
next
  case (Some found)
  then have f: "found \<in> set (patients session)" "phone_number found = phone"
    by (auto dest: query_by_phone_Some)
  from assms(1) have d: "distinct (map p_id (patients session))"
    "distinct (map phone_number (patients session))" "distinct (map a_id (appointments session))"
    by (simp_all add: integrity_def)
  from unique_row [OF d(1,2) f(1)] obtain xs ys where
    ps: "patients session = xs @ found # ys" and
    others: "\<forall>q \<in> set xs \<union> set ys. p_id q \<noteq> p_id found \<and> phone_number q \<noteq> phone_number found"
    by blast
  have row: "found\<lparr>patient_name := name, treatment_type := Some pt, teeth_location := Some teeth\<rparr>
      = row"
    using Some f(2) by (simp add: row_def)
  have mx: "map (\<lambda>q. if p_id q = p_id found then row else q) xs = xs"
    and my: "map (\<lambda>q. if p_id q = p_id found then row else q) ys = ys"
    using others by (auto intro!: map_id_on)
  have upd: "map (\<lambda>q. if p_id q = p_id found then row else q) (patients session)
      = xs @ row # ys"
    unfolding ps using mx my by simp
  have afresh: "next_id (map a_id (appointments session)) \<notin> a_id ` set (appointments session)"
    using next_id_fresh [of "map a_id (appointments session)"] by simp
  have rid: "p_id row = p_id found" "phone_number row = phone"
    using Some by (simp_all add: row_def)
  have fx: "filter (\<lambda>q. phone_number q = phone) xs = []"
    "filter (\<lambda>q. phone_number q = phone) ys = []"
    using others f(2) by (auto intro!: filter_none)
  have fy: "filter (\<lambda>q. phone_number q \<noteq> phone) xs = xs"
    "filter (\<lambda>q. phone_number q \<noteq> phone) ys = ys"
    using others f(2) by (auto intro!: filter_all)
  define new_app where "new_app =
          \<lparr>a_id = next_id (map a_id (appointments session)), appointment_date = dt,
            a_treatment_type = atr, dentist = dn, fee = fv, app_notes = Some nv,
            patient_id = Some (p_id row)\<rparr>"
  have aid: "a_id new_app = next_id (map a_id (appointments session))"
    by (simp add: new_app_def)
  have work: "upsert_body name phone pt teeth dt atr dn fv nv session
      = (Inr (), session\<lparr>patients := xs @ row # ys,
                          appointments := appointments session @ [new_app]\<rparr>)"
    using Some by (simp add: upsert_body_def Let_def row upd new_app_def)
  have int: "integrity (session\<lparr>patients := xs @ row # ys,
                          appointments := appointments session @ [new_app]\<rparr>)"
    using d afresh rid f(2) aid unfolding ps by (simp add: integrity_def)
  show ?thesis
    unfolding work using int fx fy rid Some f(2) by (simp add: ps new_app_def)
qed

lemma save_step:
  assumes "integrity store" "form_ok form phone"
  shows "\<exists>store'. save store form = (ShowInfo ''Success'' (success_message form), store')
      \<and> integrity store'
      \<and> filter (\<lambda>q. phone_number q = phone) (patients store') = [upserted store form phone]
      \<and> filter (\<lambda>q. phone_number q \<noteq> phone) (patients store')
          = filter (\<lambda>q. phone_number q \<noteq> phone) (patients store)
      \<and> length (patients store')
          = (if query_by_phone store phone = None then Suc (length (patients store))
             else length (patients store))
      \<and> appointments store' = appointments store @
          [\<lparr>a_id = next_id (map a_id (appointments store)),
            appointment_date = date_picker form,
            a_treatment_type = strip (appointment_treatment_combobox form),
            dentist = strip (dentist_combobox form),
            fee = validate_fee (strip (fee_entry form)),
            app_notes = Some (strip (notes_entry form)),
            patient_id = Some (p_id (upserted store form phone))\<rparr>]"
proof -
  from assms(2) have ok: "strip (name_entry form) \<noteq> []"
    "validate_phone (strip (phone_entry form)) = Some phone"
    "strip (appointment_treatment_combobox form) \<noteq> []" "strip (dentist_combobox form) \<noteq> []"
    by (simp_all add: form_ok_def)
  from ok(2) have ph: "phone \<noteq> []" by (simp add: validate_phone_Some)
  from upsert_body_result [OF assms(1), where name = "strip (name_entry form)"
      and phone = phone and pt = "strip (patient_treatment_entry form)"
      and teeth = "teeth_var form" and dt = "date_picker form"
      and atr = "strip (appointment_treatment_combobox form)"
      and dn = "strip (dentist_combobox form)"
      and fv = "validate_fee (strip (fee_entry form))" and nv = "strip (notes_entry form)"
      and row = "upserted store form phone"]
  obtain work where w: "upsert_body (strip (name_entry form)) phone
      (strip (patient_treatment_entry form)) (teeth_var form) (date_picker form)
      (strip (appointment_treatment_combobox form)) (strip (dentist_combobox form))
      (validate_fee (strip (fee_entry form))) (strip (notes_entry form)) store = (Inr (), work)"
    and rest: "integrity work"
      "filter (\<lambda>q. phone_number q = phone) (patients work) = [upserted store form phone]"
      "filter (\<lambda>q. phone_number q \<noteq> phone) (patients work)
          = filter (\<lambda>q. phone_number q \<noteq> phone) (patients store)"
      "length (patients work)
          = (if query_by_phone store phone = None then Suc (length (patients store))
             else length (patients store))"
      "appointments work = appointments store @
          [\<lparr>a_id = next_id (map a_id (appointments store)),
            appointment_date = date_picker form,
            a_treatment_type = strip (appointment_treatment_combobox form),
            dentist = strip (dentist_combobox form),
            fee = validate_fee (strip (fee_entry form)),
            app_notes = Some (strip (notes_entry form)),
            patient_id = Some (p_id (upserted store form phone))\<rparr>]"
    by (auto simp: upserted_def)
  from rest(1) have "commit work = Inr work" by (simp add: commit_def integrity_def)
  with w have "save store form = (ShowInfo ''Success'' (success_message form), work)"
    using ok ph by (simp add: save_def save_try_def session_scope_def Let_def success_message_def)
  with rest show ?thesis by blast
qed

lemma filter_single_find: "filter P xs = [r] \<Longrightarrow> find P xs = Some r"
  by (induction xs) (auto split: if_splits)

lemma upserted_again:
  assumes "filter (\<lambda>q. phone_number q = phone) (patients s1) = [r]"
  shows "upserted s1 form2 phone
     = r\<lparr>patient_name := strip (name_entry form2),
          treatment_type := Some (strip (patient_treatment_entry form2)),
          teeth_location := Some (teeth_var form2)\<rparr>"
proof -
  from assms have q: "query_by_phone s1 phone = Some r"
    unfolding query_by_phone_def by (rule filter_single_find)
  from assms have "r \<in> set (filter (\<lambda>q. phone_number q = phone) (patients s1))" by simp
  then have "phone_number r = phone" by simp
  with q show ?thesis by (simp add: upserted_def)
qed

text \<open>
  Claim C1. For a store that satisfies the constraints of the schema and a form that passes
  the checks with the validated phone: the save succeeds; afterwards exactly one patient
  row has the phone, and it bears the name, treatment type and teeth location of the form,
  on the row the phone had before if there was one and on a new row otherwise; the rows of
  the other phones are as before; the number of rows grows by one exactly when the phone
  was new. A second save with the same phone and other values succeeds too, keeps the
  number of rows, and leaves exactly one row for the phone, the same row, with the values
  of the second form.
\<close>

theorem save_upserts_by_phone:
  assumes "integrity store" "form_ok form phone" "form_ok form2 phone"
  shows "\<exists>s1 s2.
       save store form = (ShowInfo ''Success'' (success_message form), s1)
     \<and> filter (\<lambda>q. phone_number q = phone) (patients s1) = [upserted store form phone]
     \<and> filter (\<lambda>q. phone_number q \<noteq> phone) (patients s1)
         = filter (\<lambda>q. phone_number q \<noteq> phone) (patients store)
     \<and> length (patients s1)
         = (if query_by_phone store phone = None then Suc (length (patients store))
            else length (patients store))
     \<and> save s1 form2 = (ShowInfo ''Success'' (success_message form2), s2)
     \<and> filter (\<lambda>q. phone_number q = phone) (patients s2)
         = [(upserted store form phone)\<lparr>patient_name := strip (name_entry form2),
              treatment_type := Some (strip (patient_treatment_entry form2)),
              teeth_location := Some (teeth_var form2)\<rparr>]
     \<and> length (patients s2) = length (patients s1)"
proof -
  from save_step [OF assms(1,2)] obtain s1 where
    1: "save store form = (ShowInfo ''Success'' (success_message form), s1)"
    and i1: "integrity s1"
    and f1: "filter (\<lambda>q. phone_number q = phone) (patients s1) = [upserted store form phone]"
    and o1: "filter (\<lambda>q. phone_number q \<noteq> phone) (patients s1)
         = filter (\<lambda>q. phone_number q \<noteq> phone) (patients store)"
    and l1: "length (patients s1)
         = (if query_by_phone store phone = None then Suc (length (patients store))
            else length (patients store))"
    by blast
  from f1 have q1: "query_by_phone s1 phone \<noteq> None"
    unfolding query_by_phone_def by (simp add: filter_single_find)
  from save_step [OF i1 assms(3)] obtain s2 where
    2: "save s1 form2 = (ShowInfo ''Success'' (success_message form2), s2)"
    and f2: "filter (\<lambda>q. phone_number q = phone) (patients s2) = [upserted s1 form2 phone]"
    and l2: "length (patients s2)
         = (if query_by_phone s1 phone = None then Suc (length (patients s1))
            else length (patients s1))"
    by blast
  from l2 q1 have l2': "length (patients s2) = length (patients s1)" by simp
  from f2 have f2': "filter (\<lambda>q. phone_number q = phone) (patients s2)
         = [(upserted store form phone)\<lparr>patient_name := strip (name_entry form2),
              treatment_type := Some (strip (patient_treatment_entry form2)),
              teeth_location := Some (teeth_var form2)\<rparr>]"
    by (simp only: upserted_again [OF f1])
  show ?thesis
    using 1 f1 o1 l1 2 f2' l2' by blast
qed

theorem save_upserts_by_phone_witness:
  "integrity clinic \<and> form_ok (ann_form ''Anna'' ''30'') ''+10000000''
   \<and> form_ok (ann_form ''Anne'' []) ''+10000000''
   \<and> (\<exists>s1 s2.
         save clinic (ann_form ''Anna'' ''30'')
           = (ShowInfo ''Success'' (success_message (ann_form ''Anna'' ''30'')), s1)
       \<and> save s1 (ann_form ''Anne'' [])
           = (ShowInfo ''Success'' (success_message (ann_form ''Anne'' [])), s2)
       \<and> filter (\<lambda>q. phone_number q = ''+10000000'') (patients s2)
           = [\<lparr>p_id = 1, patient_name = ''Anne'', phone_number = ''+10000000'',
               treatment_type = Some ''Cleaning'', teeth_location = Some ''UL1''\<rparr>]
       \<and> length (patients s2) = 2)"
proof -
  have row: "(upserted clinic (ann_form ''Anna'' ''30'') ''+10000000'')
        \<lparr>patient_name := strip (name_entry (ann_form ''Anne'' [])),
          treatment_type := Some (strip (patient_treatment_entry (ann_form ''Anne'' []))),
          teeth_location := Some (teeth_var (ann_form ''Anne'' []))\<rparr>
      = \<lparr>p_id = 1, patient_name = ''Anne'', phone_number = ''+10000000'',
         treatment_type = Some ''Cleaning'', teeth_location = Some ''UL1''\<rparr>"
    by code_simp
  have len: "(if query_by_phone clinic ''+10000000'' = None then Suc (length (patients clinic))
              else length (patients clinic)) = 2"
    by code_simp
  from save_upserts_by_phone [OF example_facts(1) example_facts(4) example_facts(5)]
  show ?thesis
    unfolding row len using example_facts(1,4,5) by auto
qed




section \<open>Delete patient\<close>

text \<open>
  Claim C5. For a store that satisfies the constraints of the schema and a validated
  phone: when no patient has the phone, the delete fails with the error that the patient
  is not found and the store is as before; when a patient has the phone and the deletion
  is confirmed, the delete succeeds, the row of the patient is removed, the phone finds no
  patient, no appointment with the patient's id is left, the number of appointments falls
  by the number the patient had, and the appointments of every other id are as before.
\<close>

theorem delete_cascades:
  assumes "integrity store" "validate_phone (strip raw) = Some phone"
  shows "(query_by_phone store phone = None \<longrightarrow>
            delete_patient_gui store (Some raw) confirm
              = (Some (ShowError ''Error'' ''Patient not found.''), store))
       \<and> (\<forall>p. query_by_phone store phone = Some p \<longrightarrow>
            (\<exists>store'. delete_patient_gui store (Some raw) True
                 = (Some (ShowInfo ''Deleted''
                      (''Patient with phone '' @ [CHR 0x27] @ phone @ [CHR 0x27] @ '' deleted.'')),
                    store')
               \<and> patients store' = remove1 p (patients store)
               \<and> query_by_phone store' phone = None
               \<and> appointments_of store' (p_id p) = []
               \<and> length (appointments store') + length (appointments_of store (p_id p))
                   = length (appointments store)
               \<and> (\<forall>pid. pid \<noteq> p_id p \<longrightarrow>
                     appointments_of store' pid = appointments_of store pid)))"
proof (intro conjI allI impI)
  from assms(2) have ph: "phone \<noteq> []" by (simp add: validate_phone_Some)
  {
    assume "query_by_phone store phone = None"
    then have "delete_body phone confirm store = (Inl (ValueError ''Patient not found.''), store)"
      by (simp add: delete_body_def)
    then have "session_scope store (delete_body phone confirm)
        = (Inl (ValueError ''Patient not found.''), store)"
      by (rule session_scope_raise)
    then show "delete_patient_gui store (Some raw) confirm
              = (Some (ShowError ''Error'' ''Patient not found.''), store)"
      using assms(2) ph by (simp add: delete_patient_gui_def)
  }
  fix p
  assume q: "query_by_phone store phone = Some p"
  then have f: "p \<in> set (patients store)" "phone_number p = phone"
    by (auto dest: query_by_phone_Some)
  from assms(1) have d: "distinct (map p_id (patients store))"
    "distinct (map phone_number (patients store))"
    by (simp_all add: integrity_def)
  from unique_row [OF d f(1)] obtain xs ys where
    ps: "patients store = xs @ p # ys" and
    others: "\<forall>q \<in> set xs \<union> set ys. p_id q \<noteq> p_id p \<and> phone_number q \<noteq> phone_number p"
    by blast
  define store' where "store' = store\<lparr>patients := filter (\<lambda>q. p_id q \<noteq> p_id p) (patients store),
      appointments := filter (\<lambda>a. patient_id a \<noteq> Some (p_id p)) (appointments store)\<rparr>"
  have keep: "filter (\<lambda>q. p_id q \<noteq> p_id p) xs = xs" "filter (\<lambda>q. p_id q \<noteq> p_id p) ys = ys"
    using others by (auto intro!: filter_all)
  have pats: "patients store' = xs @ ys"
    by (simp add: store'_def ps keep)
  have "p \<notin> set xs" using others by auto
  then have rem: "remove1 p (patients store) = xs @ ys"
    by (simp add: ps remove1_append)
  have body: "delete_body phone True store = (Inr True, store')"
    using q by (simp add: delete_body_def store'_def)
  have "distinct (map phone_number (patients store'))"
    using d(2) by (simp add: pats ps)
  with body have "session_scope store (delete_body phone True) = (Inr True, store')"
    by (rule session_scope_commit)
  then have 1: "delete_patient_gui store (Some raw) True
                 = (Some (ShowInfo ''Deleted''
                      (''Patient with phone '' @ [CHR 0x27] @ phone @ [CHR 0x27] @ '' deleted.'')),
                    store')"
    using assms(2) ph by (simp add: delete_patient_gui_def)
  have 2: "patients store' = remove1 p (patients store)"
    by (simp add: pats rem)
  have 3: "query_by_phone store' phone = None"
    using others f(2) by (auto simp: query_by_phone_None pats)
  have 4: "appointments_of store' (p_id p) = []"
    by (simp add: appointments_of_def store'_def)
  have 5: "length (appointments store') + length (appointments_of store (p_id p))
                   = length (appointments store)"
    using sum_length_filter_compl [of "\<lambda>a. patient_id a = Some (p_id p)" "appointments store"]
    by (simp add: appointments_of_def store'_def)
  have 6: "\<forall>pid. pid \<noteq> p_id p \<longrightarrow> appointments_of store' pid = appointments_of store pid"
    by (auto simp: appointments_of_def store'_def intro: filter_cong)
  from 1 2 3 4 5 6
  show "\<exists>store'. delete_patient_gui store (Some raw) True
                 = (Some (ShowInfo ''Deleted''
                      (''Patient with phone '' @ [CHR 0x27] @ phone @ [CHR 0x27] @ '' deleted.'')),
                    store')
               \<and> patients store' = remove1 p (patients store)
               \<and> query_by_phone store' phone = None
               \<and> appointments_of store' (p_id p) = []
               \<and> length (appointments store') + length (appointments_of store (p_id p))
                   = length (appointments store)
               \<and> (\<forall>pid. pid \<noteq> p_id p \<longrightarrow>
                     appointments_of store' pid = appointments_of store pid)"
    by blast
qed

theorem delete_cascades_witness:
  "integrity clinic_visits
   \<and> validate_phone (strip '' +10000000 '') = Some ''+10000000''
   \<and> query_by_phone clinic_visits ''+10000000'' = Some ann
   \<and> length (appointments_of clinic_visits (p_id ann)) = 2
   \<and> (\<exists>store'. delete_patient_gui clinic_visits (Some '' +10000000 '') True
          = (Some (ShowInfo ''Deleted''
               (''Patient with phone '' @ [CHR 0x27] @ ''+10000000'' @ [CHR 0x27] @ '' deleted.'')),
             store')
        \<and> patients store' = [bob]
        \<and> appointments_of store' (p_id ann) = []
        \<and> length (appointments store') = 1)
   \<and> validate_phone (strip ''+30000000'') = Some ''+30000000''
   \<and> query_by_phone clinic_visits ''+30000000'' = None
   \<and> delete_patient_gui clinic_visits (Some ''+30000000'') True
       = (Some (ShowError ''Error'' ''Patient not found.''), clinic_visits)"
proof -
  have n: "length (appointments_of clinic_visits (p_id ann)) = 2"
    "length (appointments clinic_visits) = 3" "remove1 ann (patients clinic_visits) = [bob]"
    by code_simp+
  have a: "\<exists>store'. delete_patient_gui clinic_visits (Some '' +10000000 '') True
          = (Some (ShowInfo ''Deleted''
               (''Patient with phone '' @ [CHR 0x27] @ ''+10000000'' @ [CHR 0x27] @ '' deleted.'')),
             store')
        \<and> patients store' = [bob]
        \<and> appointments_of store' (p_id ann) = []
        \<and> length (appointments store') = 1"
    using delete_cascades [OF example_facts(2) example_facts(8), of True] example_facts(10) n
    by auto
  have b: "delete_patient_gui clinic_visits (Some ''+30000000'') True
       = (Some (ShowError ''Error'' ''Patient not found.''), clinic_visits)"
    using delete_cascades [OF example_facts(2) example_facts(9), of True] example_facts(11)
    by simp
  show ?thesis
    using a b n(1) example_facts(2,8,9,10,11) by simp
qed

section \<open>Search\<close>

lemma like_percent:
  "like_match (CHR ''%'' # ps) s \<longleftrightarrow> (\<exists>k \<le> length s. like_match ps (drop k s))"
proof (induction s)
  case Nil
  show ?case by simp
next
  case (Cons c cs)
  have "(\<exists>k \<le> length (c # cs). like_match ps (drop k (c # cs)))
      \<longleftrightarrow> like_match ps (c # cs) \<or> (\<exists>k \<le> length cs. like_match ps (drop k cs))"
  proof
    assume "\<exists>k \<le> length (c # cs). like_match ps (drop k (c # cs))"
    then obtain k where k: "k \<le> length (c # cs)" "like_match ps (drop k (c # cs))" by blast
    show "like_match ps (c # cs) \<or> (\<exists>k \<le> length cs. like_match ps (drop k cs))"
    proof (cases k)
      case 0
      with k show ?thesis by simp
    next
      case (Suc j)
      with k have "j \<le> length cs" "like_match ps (drop j cs)" by simp_all
      then show ?thesis by blast
    qed
  next
    assume "like_match ps (c # cs) \<or> (\<exists>k \<le> length cs. like_match ps (drop k cs))"
    then show "\<exists>k \<le> length (c # cs). like_match ps (drop k (c # cs))"
    proof
      assume "like_match ps (c # cs)"
      then have "like_match ps (drop 0 (c # cs))" by simp
      then show ?thesis by blast
    next
      assume "\<exists>k \<le> length cs. like_match ps (drop k cs)"
      then obtain k where "k \<le> length cs" "like_match ps (drop k cs)" by blast
      then have "Suc k \<le> length (c # cs)" "like_match ps (drop (Suc k) (c # cs))" by simp_all
      then show ?thesis by blast
    qed
  qed
  with Cons show ?case by simp
qed

lemma like_percent_only: "like_match ''%'' s"
proof -
  have "like_match [] (drop (length s) s)" by simp
  then show ?thesis unfolding like_percent by blast
qed

lemma like_plain:
  assumes "CHR ''%'' \<notin> set t" "CHR ''_'' \<notin> set t"
  shows "like_match (t @ ps) s
     \<longleftrightarrow> (length t \<le> length s \<and> take (length t) s = t \<and> like_match ps (drop (length t) s))"
  using assms
proof (induction t arbitrary: s)
  case Nil
  show ?case by simp
next
  case (Cons x t)
  then have x: "x \<noteq> CHR ''%''" "x \<noteq> CHR ''_''" by auto
  show ?case
  proof (cases s)
    case Nil
    with x show ?thesis by simp
  next
    case (Cons c cs)
    with x Cons.IH [of cs] Cons.prems show ?thesis by auto
  qed
qed

lemma like_contains:
  assumes "CHR ''%'' \<notin> set t" "CHR ''_'' \<notin> set t"
  shows "like_match (''%'' @ t @ ''%'') s \<longleftrightarrow> contains_str t s"
proof -
  have "like_match (''%'' @ t @ ''%'') s
      \<longleftrightarrow> (\<exists>k \<le> length s. like_match (t @ ''%'') (drop k s))"
    using like_percent [of "t @ ''%''" s] by simp
  also have "\<dots> \<longleftrightarrow> (\<exists>k \<le> length s. length t \<le> length (drop k s)
                         \<and> take (length t) (drop k s) = t)"
    by (simp only: like_plain [OF assms] like_percent_only simp_thms)
  also have "\<dots> \<longleftrightarrow> (\<exists>k \<le> length s. take (length t) (drop k s) = t)"
  proof -
    have "length t \<le> length xs" if "take (length t) xs = t" for xs :: string
    proof -
      have "length (take (length t) xs) = length t" using that by simp
      then show ?thesis by simp
    qed
    then show ?thesis by blast
  qed
  also have "\<dots> \<longleftrightarrow> contains_str t s"
  proof -
    have "set [0 ..< Suc (length s)] = {k. k \<le> length s}" by auto
    then show ?thesis by (simp only: contains_str_def) blast
  qed
  finally show ?thesis .
qed

lemma ascii_lower_code:
  "of_char (ascii_lower c) = (if 65 \<le> (of_char c :: nat) \<and> (of_char c :: nat) \<le> 90
                               then (of_char c :: nat) + 32 else of_char c)"
  by (simp add: ascii_lower_def)

lemma ascii_lower_wild:
  "ascii_lower c = CHR ''%'' \<longleftrightarrow> c = CHR ''%''"
  "ascii_lower c = CHR ''_'' \<longleftrightarrow> c = CHR ''_''"
proof -
  have p: "of_char (ascii_lower c) = (37::nat) \<longleftrightarrow> of_char c = (37::nat)"
    and u: "of_char (ascii_lower c) = (95::nat) \<longleftrightarrow> of_char c = (95::nat)"
    unfolding ascii_lower_code by auto
  have e: "d = e \<longleftrightarrow> (of_char d :: nat) = of_char e" for d e :: char
    by (auto dest: injD [OF inj_of_char])
  show "ascii_lower c = CHR ''%'' \<longleftrightarrow> c = CHR ''%''"
    using p by (simp add: e [of _ "CHR ''%''"])
  show "ascii_lower c = CHR ''_'' \<longleftrightarrow> c = CHR ''_''"
    using u by (simp add: e [of _ "CHR ''_''"])
qed

lemma lower_no_wild:
  "CHR ''%'' \<in> set (map ascii_lower t) \<longleftrightarrow> CHR ''%'' \<in> set t"
  "CHR ''_'' \<in> set (map ascii_lower t) \<longleftrightarrow> CHR ''_'' \<in> set t"
proof -
  show "CHR ''%'' \<in> set (map ascii_lower t) \<longleftrightarrow> CHR ''%'' \<in> set t"
    unfolding set_map by (metis image_iff ascii_lower_wild(1))
  show "CHR ''_'' \<in> set (map ascii_lower t) \<longleftrightarrow> CHR ''_'' \<in> set t"
    unfolding set_map by (metis image_iff ascii_lower_wild(2))
qed

lemma ilike_contains:
  assumes "CHR ''%'' \<notin> set tm" "CHR ''_'' \<notin> set tm"
  shows "ilike column (''%'' @ tm @ ''%'') \<longleftrightarrow> opt_contains tm column"
proof (cases column)
  case None
  then show ?thesis by (simp add: ilike_def opt_contains_def)
next
  case (Some v)
  have l: "map ascii_lower (''%'' @ tm @ ''%'') = ''%'' @ map ascii_lower tm @ ''%''"
    by (simp add: ascii_lower_wild)
  have "like_match (''%'' @ map ascii_lower tm @ ''%'') (map ascii_lower v)
      \<longleftrightarrow> contains_str (map ascii_lower tm) (map ascii_lower v)"
    using assms by (intro like_contains) (simp_all only: lower_no_wild not_False_eq_True)
  with Some show ?thesis
    by (simp only: ilike_def opt_contains_def ci_contains_def l option.case)
qed

lemma matches_search_spec:
  assumes "CHR ''%'' \<notin> set tm" "CHR ''_'' \<notin> set tm"
  shows "matches db tm p \<longleftrightarrow> search_spec db tm p"
proof -
  have c: "ilike column (CHR ''%'' # tm @ ''%'') \<longleftrightarrow> opt_contains tm column" for column
    using ilike_contains [OF assms, of column] by simp
  have s: "opt_contains tm (Some v) \<longleftrightarrow> ci_contains tm v" for v
    by (simp add: opt_contains_def)
  show ?thesis
    unfolding matches_def search_spec_def Let_def
    by (simp add: c s)
qed


lemma filter_concat_own:
  assumes "distinct qs" "p \<in> set qs" "\<And>q r. r \<in> set (g q) \<Longrightarrow> fst r = q"
  shows "filter (\<lambda>r. fst r = p) (concat (map g qs)) = g p"
  using assms(1,2)
proof (induction qs)
  case Nil
  then show ?case by simp
next
  case (Cons q qs)
  have own: "filter (\<lambda>r. fst r = p) (g p) = g p"
    using assms(3) by (auto intro: filter_True)
  have other: "filter (\<lambda>r. fst r = p) (g q') = []" if "q' \<noteq> p" for q'
    using assms(3) that by (auto simp: filter_empty_conv)
  have rest: "filter (\<lambda>r. fst r = p) (concat (map g qs)) = []" if "p \<notin> set qs"
    using that other by (induction qs) auto
  show ?case
  proof (cases "q = p")
    case True
    with Cons.prems have "p \<notin> set qs" by simp
    with True own rest show ?thesis by simp
  next
    case False
    with Cons other show ?thesis by auto
  qed
qed

lemma patient_rows_fst: "r \<in> set (patient_rows session p) \<Longrightarrow> fst r = p"
  by (auto simp: patient_rows_def Let_def split: if_splits)

lemma sort_key_nonempty: "xs \<noteq> [] \<Longrightarrow> sort_key f xs \<noteq> []"
  by (metis length_sort length_0_conv)

lemma patient_rows_nonempty: "patient_rows session p \<noteq> []"
  by (simp add: patient_rows_def Let_def sort_key_nonempty)

lemma patient_rows_listed:
  "List.map_filter snd (patient_rows session p)
     = sort_key appointment_date (appointments_of session (p_id p))"
  by (simp add: patient_rows_def Let_def map_filter_def comp_def)

lemma rows_patients: "fst ` set (concat (map (patient_rows session) qs)) = set qs"
proof (induction qs)
  case Nil
  show ?case by simp
next
  case (Cons q qs)
  have "fst ` set (patient_rows session q) = {q}"
    using patient_rows_fst [of _ session q] patient_rows_nonempty [of session q]
    by (cases "patient_rows session q") force+
  with Cons show ?case by (simp add: image_Un)
qed

text \<open>
  Claim C7, as the specification states it: a search returns exactly the patients of whom
  a field contains the term. The code matches the pattern \<open>%term%\<close> with the SQL operator
  LIKE, in which \<open>_\<close> and \<open>%\<close> are wildcards: the search for \<open>_\<close> in the store of Ann
  and Bob returns both patients, and no field of either contains an underscore.
\<close>

theorem wildcard_search_counterexample:
  "show_records clinic (Some ''_'') = (Inr [(ann, None), (bob, None)], clinic)
   \<and> \<not> search_spec clinic ''_'' ann \<and> \<not> search_spec clinic ''_'' bob"
  by code_simp

text \<open>
  Claim C7, amended. On a store that satisfies the constraints of the schema, the listing
  succeeds and leaves the store as it is. When the search term is absent or empty, the
  rows show all patients. When the term is not empty and holds neither \<open>%\<close> nor \<open>_\<close>, the
  rows show exactly the patients of whom the name, the phone, the treatment type, the teeth
  location or the treatment type of an owned appointment contains the term, the case of the
  ASCII letters ignored. For each patient shown, the rows list the patient's appointments,
  each once, in ascending order of the date.
\<close>

theorem show_records_search:
  assumes "integrity store"
  shows "\<exists>rows. show_records store query = (Inr rows, store)
     \<and> ((query = None \<or> query = Some []) \<longrightarrow> fst ` set rows = set (patients store))
     \<and> (\<forall>tm. query = Some tm \<and> tm \<noteq> [] \<and> CHR ''%'' \<notin> set tm \<and> CHR ''_'' \<notin> set tm \<longrightarrow>
           fst ` set rows = {p \<in> set (patients store). search_spec store tm p})
     \<and> (\<forall>p \<in> fst ` set rows.
           sorted (map appointment_date (listed rows p))
         \<and> mset (listed rows p) = mset (appointments_of store (p_id p)))"
proof -
  define qs where "qs = (if query \<noteq> None \<and> query \<noteq> Some []
               then filter (matches store (the query)) (patients store)
               else patients store)"
  define rows where "rows = concat (map (patient_rows store) qs)"
  from assms have d: "distinct (map phone_number (patients store))"
    "distinct (patients store)"
    by (auto simp: integrity_def distinct_map)
  have dq: "distinct qs" using d(2) by (simp add: qs_def)
  have body: "records_body query store = (Inr rows, store)"
    by (simp only: records_body_def Let_def rows_def qs_def)
  have 1: "show_records store query = (Inr rows, store)"
    unfolding show_records_def using body d(1) by (rule session_scope_commit)
  have pats: "fst ` set rows = set qs"
    unfolding rows_def by (rule rows_patients)
  have 2: "(query = None \<or> query = Some []) \<longrightarrow> fst ` set rows = set (patients store)"
    using pats by (auto simp: qs_def)
  have 3: "\<forall>tm. query = Some tm \<and> tm \<noteq> [] \<and> CHR ''%'' \<notin> set tm \<and> CHR ''_'' \<notin> set tm \<longrightarrow>
           fst ` set rows = {p \<in> set (patients store). search_spec store tm p}"
    using pats by (auto simp: qs_def matches_search_spec)
  have 4: "\<forall>p \<in> fst ` set rows.
           sorted (map appointment_date (listed rows p))
         \<and> mset (listed rows p) = mset (appointments_of store (p_id p))"
  proof
    fix p assume "p \<in> fst ` set rows"
    then have p: "p \<in> set qs" using pats by simp
    have "filter (\<lambda>r. fst r = p) rows = patient_rows store p"
      unfolding rows_def using dq p by (rule filter_concat_own) (rule patient_rows_fst)
    then have "listed rows p = sort_key appointment_date (appointments_of store (p_id p))"
      by (simp add: listed_def patient_rows_listed)
    then show "sorted (map appointment_date (listed rows p))
         \<and> mset (listed rows p) = mset (appointments_of store (p_id p))"
      by simp
  qed
  from 1 2 3 4 show ?thesis by blast
qed

theorem show_records_search_witness:
  "integrity clinic \<and> ''clean'' \<noteq> [] \<and> CHR ''%'' \<notin> set ''clean'' \<and> CHR ''_'' \<notin> set ''clean''
   \<and> (\<exists>rows. show_records clinic (Some ''clean'') = (Inr rows, clinic)
         \<and> fst ` set rows = {ann})
   \<and> integrity clinic_visits
   \<and> (\<exists>rows. show_records clinic_visits None = (Inr rows, clinic_visits)
         \<and> fst ` set rows = {ann, bob}
         \<and> sorted (map appointment_date (listed rows ann))
         \<and> mset (listed rows ann) = mset (appointments_of clinic_visits (p_id ann)))"
proof -
  have c: "search_spec clinic ''clean'' ann" "\<not> search_spec clinic ''clean'' bob"
    by code_simp+
  have p: "set (patients clinic) = {ann, bob}" "set (patients clinic_visits) = {ann, bob}"
    by (simp_all add: clinic_def clinic_visits_def)
  have s: "{p \<in> set (patients clinic). search_spec clinic ''clean'' p} = {ann}"
    unfolding p using c by auto
  have a: "\<exists>rows. show_records clinic (Some ''clean'') = (Inr rows, clinic)
         \<and> fst ` set rows = {ann}"
    using show_records_search [OF example_facts(1), of "Some ''clean''"] s by auto
  have b: "\<exists>rows. show_records clinic_visits None = (Inr rows, clinic_visits)
         \<and> fst ` set rows = {ann, bob}
         \<and> sorted (map appointment_date (listed rows ann))
         \<and> mset (listed rows ann) = mset (appointments_of clinic_visits (p_id ann))"
  proof -
    from show_records_search [OF example_facts(2), of None] obtain rows where
      r: "show_records clinic_visits None = (Inr rows, clinic_visits)"
      and f: "fst ` set rows = set (patients clinic_visits)"
      and l: "\<forall>p \<in> fst ` set rows.
           sorted (map appointment_date (listed rows p))
         \<and> mset (listed rows p) = mset (appointments_of clinic_visits (p_id p))"
      by blast
    from f have "ann \<in> fst ` set rows" unfolding p(2) by simp
    with l have "sorted (map appointment_date (listed rows ann))
         \<and> mset (listed rows ann) = mset (appointments_of clinic_visits (p_id ann))"
      by (rule bspec)
    with r f show ?thesis unfolding p(2) by blast
  qed
  show ?thesis
    using a b example_facts(1,2) by simp
qed

end
